theory Spec2Isabelle
  imports Main
begin

section \<open>Python strings and their UTF-8 encoding\<close>

text \<open>
  A Python \<open>str\<close> is a sequence of Unicode code points. A code point is a natural
  number here, and a text is a list of them, so that \<open>length\<close> counts code points as
  Python's \<open>len\<close> does.
\<close>

type_synonym codepoint = nat
type_synonym str = "codepoint list"

text \<open>The exceptions the modelled code can raise.\<close>

datatype error =
    UnicodeEncodeError
  | TypeError
  | KeyError
  | AttributeError
  | RuntimeError

definition SPACE :: codepoint where
  "SPACE = 0x20"

text \<open>
  \<open>str.encode('utf-8')\<close> raises \<open>UnicodeEncodeError\<close> on a surrogate
  (U+D800 to U+DFFF). A Python \<open>str\<close> holds no code point above U+10FFFF; the
  model refuses those too.
\<close>

definition encodable :: "codepoint \<Rightarrow> bool" where
  "encodable c = (c < 0x110000 \<and> \<not> (0xD800 \<le> c \<and> c \<le> 0xDFFF))"

definition utf8_bytes :: "codepoint \<Rightarrow> nat list" where
  "utf8_bytes c =
     (if c < 0x80 then [c]
      else if c < 0x800 then [0xC0 + c div 0x40, 0x80 + c mod 0x40]
      else if c < 0x10000 then
        [0xE0 + c div 0x1000, 0x80 + (c div 0x40) mod 0x40, 0x80 + c mod 0x40]
      else
        [0xF0 + c div 0x40000, 0x80 + (c div 0x1000) mod 0x40,
         0x80 + (c div 0x40) mod 0x40, 0x80 + c mod 0x40])"

fun str_encode :: "str \<Rightarrow> error + nat list" where
  "str_encode [] = Inr []"
| "str_encode (c # cs) =
     (if encodable c then
        (case str_encode cs of
           Inl e \<Rightarrow> Inl e
         | Inr bs \<Rightarrow> Inr (utf8_bytes c @ bs))
      else Inl UnicodeEncodeError)"

text \<open>A well-formed text is one that \<open>encode\<close> accepts.\<close>

definition well_formed :: "str \<Rightarrow> bool" where
  "well_formed t = list_all encodable t"

subsection \<open>Slices, \<open>rfind\<close> and \<open>lstrip\<close>\<close>

text \<open>
  Python clamps a slice bound into \<open>0..len\<close>, a negative bound counting from the
  end.
\<close>

definition slice_index :: "int \<Rightarrow> nat \<Rightarrow> nat" where
  "slice_index i n =
     (if i < 0 then (if i + int n < 0 then 0 else nat (i + int n))
      else if int n < i then n
      else nat i)"

text \<open>\<open>text[i:]\<close> and \<open>text[:i]\<close>.\<close>

definition slice_from :: "'a list \<Rightarrow> int \<Rightarrow> 'a list" where
  "slice_from xs i = drop (slice_index i (length xs)) xs"

definition slice_to :: "'a list \<Rightarrow> int \<Rightarrow> 'a list" where
  "slice_to xs i = take (slice_index i (length xs)) xs"

text \<open>The index of the last occurrence of an element of a list.\<close>

primrec rindex :: "'a \<Rightarrow> 'a list \<Rightarrow> nat option" where
  "rindex c [] = None"
| "rindex c (x # xs) =
     (case rindex c xs of
        Some i \<Rightarrow> Some (Suc i)
      | None \<Rightarrow> if x = c then Some 0 else None)"

text \<open>
  \<open>text.rfind(c, start, end)\<close> for a one-character needle: the highest index in
  \<open>text[start:end]\<close> that holds \<open>c\<close>, or \<open>-1\<close>.
\<close>

definition str_rfind :: "str \<Rightarrow> codepoint \<Rightarrow> int \<Rightarrow> int \<Rightarrow> int" where
  "str_rfind t c start end' =
     (let lo = slice_index start (length t);
          hi = slice_index end' (length t)
      in case rindex c (drop lo (take hi t)) of
           None \<Rightarrow> - 1
         | Some i \<Rightarrow> int (lo + i))"

text \<open>
  \<open>str.isspace\<close> on one code point: the code points Python counts as whitespace.
\<close>

definition isspace :: "codepoint \<Rightarrow> bool" where
  "isspace c =
     ((0x09 \<le> c \<and> c \<le> 0x0D) \<or> (0x1C \<le> c \<and> c \<le> 0x20) \<or> c = 0x85 \<or> c = 0xA0
      \<or> c = 0x1680 \<or> (0x2000 \<le> c \<and> c \<le> 0x200A) \<or> c = 0x2028 \<or> c = 0x2029
      \<or> c = 0x202F \<or> c = 0x205F \<or> c = 0x3000)"

definition str_lstrip :: "str \<Rightarrow> str" where
  "str_lstrip t = dropWhile isspace t"

section \<open>\<open>get_sendable_message\<close>\<close>

text \<open>
  The body of the \<open>while\<close> loop, on the loop's variables \<open>text\<close>, \<open>excess\<close> and
  \<open>unicode_max_length\<close>.
\<close>

definition loop_body :: "str \<Rightarrow> str \<Rightarrow> int \<Rightarrow> str \<times> str \<times> int" where
  "loop_body text' excess unicode_max_length =
     (let last_space = str_rfind text' SPACE 0 unicode_max_length in
      if last_space = - 1 then
        (slice_to text' unicode_max_length,
         slice_from text' unicode_max_length @ excess,
         unicode_max_length - 1)
      else
        (slice_to text' last_space,
         slice_from text' last_space,
         unicode_max_length))"

text \<open>
  The loop itself. It tests \<open>len(text.encode('utf-8')) > max_length\<close>, where the
  encoding may raise. With a negative \<open>max_length\<close> the test never fails and the
  loop runs forever: not returning is the value \<open>None\<close>.
\<close>

partial_function (option) split_loop ::
  "int \<Rightarrow> str \<Rightarrow> str \<Rightarrow> int \<Rightarrow> (error + str \<times> str) option" where
  "split_loop max_length text' excess unicode_max_length =
     (case str_encode text' of
        Inl e \<Rightarrow> Some (Inl e)
      | Inr bs \<Rightarrow>
          if int (length bs) > max_length then
            (case loop_body text' excess unicode_max_length of
               (t, e, u) \<Rightarrow> split_loop max_length t e u)
          else Some (Inr (text', excess)))"

declare split_loop.simps [code]

definition get_sendable_message :: "str \<Rightarrow> int \<Rightarrow> (error + str \<times> str) option" where
  "get_sendable_message text' max_length =
     (case split_loop max_length text' [] max_length of
        None \<Rightarrow> None
      | Some (Inl e) \<Rightarrow> Some (Inl e)
      | Some (Inr (t, excess)) \<Rightarrow> Some (Inr (t, str_lstrip excess)))"

section \<open>Python objects, \<open>dict\<close> and \<open>threading.Lock\<close>\<close>

text \<open>
  The objects used as keys and values. A list is the unhashable one: \<open>hash\<close> of it
  raises \<open>TypeError\<close>. An \<open>Identifier\<close> is represented by the form under which it
  compares and hashes, so that equality of keys is equality of these values.
\<close>

datatype pyobj =
    PyNone
  | PyInt int
  | PyStr str
  | PyList "pyobj list"
  | PyIdentifier str

fun hashable :: "pyobj \<Rightarrow> bool" where
  "hashable (PyList xs) = False"
| "hashable x = True"

definition str_of :: "string \<Rightarrow> str" where
  "str_of s = map of_char s"

text \<open>
  A \<open>dict\<close> is the list of its items in insertion order. Storing under a key that is
  present replaces the value in place; a new key goes to the end.
\<close>

type_synonym pydict = "(pyobj \<times> pyobj) list"

primrec dict_insert :: "pyobj \<Rightarrow> pyobj \<Rightarrow> pydict \<Rightarrow> pydict" where
  "dict_insert k v [] = [(k, v)]"
| "dict_insert k v (p # ps) =
     (if fst p = k then (fst p, v) # ps else p # dict_insert k v ps)"

definition dict_setitem :: "pydict \<Rightarrow> pyobj \<Rightarrow> pyobj \<Rightarrow> error + pydict" where
  "dict_setitem d key value =
     (if hashable key then Inr (dict_insert key value d) else Inl TypeError)"

definition dict_getitem :: "pydict \<Rightarrow> pyobj \<Rightarrow> error + pyobj" where
  "dict_getitem d key =
     (if hashable key then
        (case map_of d key of None \<Rightarrow> Inl KeyError | Some v \<Rightarrow> Inr v)
      else Inl TypeError)"

definition dict_contains :: "pydict \<Rightarrow> pyobj \<Rightarrow> error + bool" where
  "dict_contains d key =
     (if hashable key then Inr (map_of d key \<noteq> None) else Inl TypeError)"

text \<open>
  \<open>dict.__init__(self, *args)\<close>: no argument, or one argument giving the items.
  It stores the items itself and never calls \<open>__setitem__\<close> of a subclass.
\<close>

fun dict_update :: "pydict \<Rightarrow> (pyobj \<times> pyobj) list \<Rightarrow> error + pydict" where
  "dict_update d [] = Inr d"
| "dict_update d ((k, v) # kvs) =
     (case dict_setitem d k v of
        Inl e \<Rightarrow> Inl e
      | Inr d' \<Rightarrow> dict_update d' kvs)"

fun dict_init :: "(pyobj \<times> pyobj) list list \<Rightarrow> error + pydict" where
  "dict_init [] = Inr []"
| "dict_init [kvs] = dict_update [] kvs"
| "dict_init args = Inl TypeError"

text \<open>
  \<open>dict.__eq__\<close>: the same number of items, and every item of the one found in the
  other with an equal value.
\<close>

definition dict_eq :: "pydict \<Rightarrow> pydict \<Rightarrow> bool" where
  "dict_eq a b =
     (length a = length b \<and> list_all (\<lambda>p. map_of b (fst p) = Some (snd p)) a)"

text \<open>
  A \<open>threading.Lock\<close>: its identity and whether it is held. \<open>acquire\<close> on a held lock
  waits until another thread releases it; in a run where no thread will, it never
  returns, which is the value \<open>None\<close>. \<open>release\<close> on a free lock raises
  \<open>RuntimeError\<close>.
\<close>

record threading_Lock =
  lock_id :: nat
  locked :: bool

definition Lock_new :: "nat \<Rightarrow> threading_Lock" where
  "Lock_new i = \<lparr>lock_id = i, locked = False\<rparr>"

definition Lock_acquire :: "threading_Lock \<Rightarrow> threading_Lock option" where
  "Lock_acquire l = (if locked l then None else Some (l\<lparr>locked := True\<rparr>))"

definition Lock_release :: "threading_Lock \<Rightarrow> error + threading_Lock" where
  "Lock_release l = (if locked l then Inr (l\<lparr>locked := False\<rparr>) else Inl RuntimeError)"

section \<open>\<open>SopelMemory\<close>\<close>

text \<open>
  The object is its \<open>dict\<close> contents and its \<open>lock\<close> attribute. A method takes the
  object and returns the object after the call with either the exception raised or the
  value returned; \<open>None\<close> is a call that never returns.
\<close>

record SopelMemory =
  entries :: pydict
  lock :: threading_Lock

definition SopelMemory_init :: "nat \<Rightarrow> (pyobj \<times> pyobj) list list \<Rightarrow> error + SopelMemory" where
  "SopelMemory_init i args =
     (case dict_init args of
        Inl e \<Rightarrow> Inl e
      | Inr d \<Rightarrow> Inr \<lparr>entries = d, lock = Lock_new i\<rparr>)"

definition SopelMemory_setitem ::
  "'a SopelMemory_scheme \<Rightarrow> pyobj \<Rightarrow> pyobj \<Rightarrow> ('a SopelMemory_scheme \<times> (error + pyobj)) option" where
  "SopelMemory_setitem self key value =
     (case Lock_acquire (lock self) of
        None \<Rightarrow> None
      | Some l \<Rightarrow>
          (case dict_setitem (entries self) key value of
             Inl e \<Rightarrow> Some (self\<lparr>lock := l\<rparr>, Inl e)
           | Inr d \<Rightarrow>
               (case Lock_release l of
                  Inl e \<Rightarrow> Some (self\<lparr>entries := d, lock := l\<rparr>, Inl e)
                | Inr l' \<Rightarrow> Some (self\<lparr>entries := d, lock := l'\<rparr>, Inr PyNone))))"

definition SopelMemory_contains ::
  "'a SopelMemory_scheme \<Rightarrow> pyobj \<Rightarrow> ('a SopelMemory_scheme \<times> (error + bool)) option" where
  "SopelMemory_contains self key =
     (case Lock_acquire (lock self) of
        None \<Rightarrow> None
      | Some l \<Rightarrow>
          (case dict_contains (entries self) key of
             Inl e \<Rightarrow> Some (self\<lparr>lock := l\<rparr>, Inl e)
           | Inr result \<Rightarrow>
               (case Lock_release l of
                  Inl e \<Rightarrow> Some (self\<lparr>lock := l\<rparr>, Inl e)
                | Inr l' \<Rightarrow> Some (self\<lparr>lock := l'\<rparr>, Inr result))))"

text \<open>\<open>__getitem__\<close> is the one of \<open>dict\<close>: it does not touch the lock.\<close>

definition SopelMemory_getitem ::
  "'a SopelMemory_scheme \<Rightarrow> pyobj \<Rightarrow> ('a SopelMemory_scheme \<times> (error + pyobj)) option" where
  "SopelMemory_getitem self key = Some (self, dict_getitem (entries self) key)"

text \<open>
  \<open>__eq__\<close>, \<open>__ne__\<close> and \<open>__hash__\<close> are those of \<open>dict\<close>. \<open>dict.__hash__\<close> is
  \<open>None\<close>: hashing the object raises \<open>TypeError\<close>.
\<close>

definition SopelMemory_eq :: "'a SopelMemory_scheme \<Rightarrow> 'b SopelMemory_scheme \<Rightarrow> bool" where
  "SopelMemory_eq self other = dict_eq (entries self) (entries other)"

definition SopelMemory_ne :: "'a SopelMemory_scheme \<Rightarrow> 'b SopelMemory_scheme \<Rightarrow> bool" where
  "SopelMemory_ne self other = (\<not> dict_eq (entries self) (entries other))"

definition SopelMemory_hash :: "'a SopelMemory_scheme \<Rightarrow> error + int" where
  "SopelMemory_hash self = Inl TypeError"

section \<open>\<open>SopelIdentifierMemory\<close>\<close>

record SopelIdentifierMemory = SopelMemory +
  make_identifier :: "pyobj \<Rightarrow> error + pyobj"

definition SopelIdentifierMemory_init ::
  "nat \<Rightarrow> (pyobj \<times> pyobj) list list \<Rightarrow> (pyobj \<Rightarrow> error + pyobj)
     \<Rightarrow> error + SopelIdentifierMemory" where
  "SopelIdentifierMemory_init i args identifier_factory =
     (case SopelMemory_init i args of
        Inl e \<Rightarrow> Inl e
      | Inr m \<Rightarrow>
          Inr \<lparr>entries = entries m, lock = lock m, make_identifier = identifier_factory\<rparr>)"

definition SopelIdentifierMemory_getitem ::
  "SopelIdentifierMemory \<Rightarrow> pyobj \<Rightarrow> (SopelIdentifierMemory \<times> (error + pyobj)) option" where
  "SopelIdentifierMemory_getitem self key =
     (case make_identifier self key of
        Inl e \<Rightarrow> Some (self, Inl e)
      | Inr k \<Rightarrow> SopelMemory_getitem self k)"

definition SopelIdentifierMemory_contains ::
  "SopelIdentifierMemory \<Rightarrow> pyobj \<Rightarrow> (SopelIdentifierMemory \<times> (error + bool)) option" where
  "SopelIdentifierMemory_contains self key =
     (case make_identifier self key of
        Inl e \<Rightarrow> Some (self, Inl e)
      | Inr k \<Rightarrow> SopelMemory_contains self k)"

definition SopelIdentifierMemory_setitem ::
  "SopelIdentifierMemory \<Rightarrow> pyobj \<Rightarrow> pyobj \<Rightarrow> (SopelIdentifierMemory \<times> (error + pyobj)) option" where
  "SopelIdentifierMemory_setitem self key value =
     (case make_identifier self key of
        Inl e \<Rightarrow> Some (self, Inl e)
      | Inr k \<Rightarrow> SopelMemory_setitem self k value)"

text \<open>
  Modelled from the spec: the class \<open>Identifier\<close> of \<open>sopel.tools.identifiers\<close>, the
  default \<open>identifier_factory\<close>, is not among the sources. It turns a \<open>str\<close> into its
  identity, folding case, so that \<open>'Exirel'\<close> and \<open>'exirel'\<close> are one key, and raises
  \<open>AttributeError\<close> on an object that is not a string, as the docstring of
  \<open>SopelIdentifierMemory\<close> shows for \<open>memory[1] = 'error'\<close>.
\<close>

definition lower :: "codepoint \<Rightarrow> codepoint" where
  "lower c = (if 0x41 \<le> c \<and> c \<le> 0x5A then c + 0x20 else c)"

fun Identifier :: "pyobj \<Rightarrow> error + pyobj" where
  "Identifier (PyStr s) = Inr (PyIdentifier (map lower s))"
| "Identifier (PyIdentifier s) = Inr (PyIdentifier s)"
| "Identifier x = Inl AttributeError"

section \<open>Properties of \<open>get_sendable_message\<close>\<close>

subsection \<open>Encoding, slices and \<open>rfind\<close>\<close>

lemma str_encode_Inr_iff:
  "(\<exists>bs. str_encode t = Inr bs) \<longleftrightarrow> well_formed t"
  by (induction t) (auto simp: well_formed_def split: sum.splits)

lemma str_encode_well_formed:
  "well_formed t \<Longrightarrow> str_encode t = Inr (concat (map utf8_bytes t))"
  by (induction t) (auto simp: well_formed_def)

lemma str_encode_ill_formed:
  "\<not> well_formed t \<Longrightarrow> str_encode t = Inl UnicodeEncodeError"
  by (induction t) (auto simp: well_formed_def split: sum.splits)

lemma utf8_bytes_length: "1 \<le> length (utf8_bytes c) \<and> length (utf8_bytes c) \<le> 4"
  by (simp add: utf8_bytes_def)

lemma well_formed_take: "well_formed t \<Longrightarrow> well_formed (take n t)"
  unfolding well_formed_def list_all_iff by (auto dest: in_set_takeD)

lemma well_formed_drop: "well_formed t \<Longrightarrow> well_formed (drop n t)"
  unfolding well_formed_def list_all_iff by (auto dest: in_set_dropD)

lemma well_formed_append: "well_formed (a @ b) \<longleftrightarrow> well_formed a \<and> well_formed b"
  unfolding well_formed_def by simp

lemma rindex_None: "rindex c xs = None \<longleftrightarrow> c \<notin> set xs"
  by (induction xs) (auto split: option.splits)

lemma rindex_Some:
  "rindex c xs = Some i \<Longrightarrow>
     i < length xs \<and> xs ! i = c \<and> (\<forall>j. i < j \<and> j < length xs \<longrightarrow> xs ! j \<noteq> c)"
proof (induction xs arbitrary: i)
  case Nil
  then show ?case by simp
next
  case (Cons x xs)
  show ?case
  proof (cases "rindex c xs")
    case None
    with Cons.prems have i0: "i = 0" and xc: "x = c"
      by (auto split: if_splits)
    from None have "c \<notin> set xs" by (simp add: rindex_None)
    then have "\<forall>j. 0 < j \<and> j < length (x # xs) \<longrightarrow> (x # xs) ! j \<noteq> c"
      by (auto simp: nth_Cons split: nat.splits)
    with i0 xc show ?thesis by simp
  next
    case (Some k)
    with Cons.prems have ik: "i = Suc k" by simp
    from Cons.IH [OF Some] have k: "k < length xs" "xs ! k = c"
      and later: "\<forall>j. k < j \<and> j < length xs \<longrightarrow> xs ! j \<noteq> c"
      by auto
    have "\<forall>j. Suc k < j \<and> j < length (x # xs) \<longrightarrow> (x # xs) ! j \<noteq> c"
    proof (intro allI impI)
      fix j assume j: "Suc k < j \<and> j < length (x # xs)"
      then obtain j' where j': "j = Suc j'" by (cases j) auto
      with j later show "(x # xs) ! j \<noteq> c" by simp
    qed
    with ik k show ?thesis by simp
  qed
qed

lemma slice_index_nonneg: "0 \<le> u \<Longrightarrow> slice_index u n = min (nat u) n"
  by (auto simp: slice_index_def)

lemma slice_to_nonneg: "0 \<le> u \<Longrightarrow> slice_to xs u = take (nat u) xs"
  by (simp add: slice_to_def slice_index_nonneg min_def)

lemma slice_from_nonneg: "0 \<le> u \<Longrightarrow> slice_from xs u = drop (nat u) xs"
  by (simp add: slice_from_def slice_index_nonneg min_def)

lemma str_rfind_nonneg:
  "0 \<le> u \<Longrightarrow> str_rfind t c 0 u =
     (case rindex c (take (nat u) t) of None \<Rightarrow> - 1 | Some i \<Rightarrow> int i)"
  by (auto simp: str_rfind_def slice_index_def split: option.splits)

lemma loop_body_nonneg:
  assumes "0 \<le> u"
  shows "(SPACE \<notin> set (take (nat u) t) \<and>
            loop_body t ex u = (take (nat u) t, drop (nat u) t @ ex, u - 1))
         \<or> (\<exists>i. i < nat u \<and> i < length t \<and> t ! i = SPACE
              \<and> (\<forall>j. i < j \<and> j < nat u \<and> j < length t \<longrightarrow> t ! j \<noteq> SPACE)
              \<and> loop_body t ex u = (take i t, drop i t, u))"
proof (cases "rindex SPACE (take (nat u) t)")
  case None
  then have "SPACE \<notin> set (take (nat u) t)" by (simp add: rindex_None)
  moreover from None assms
  have "loop_body t ex u = (take (nat u) t, drop (nat u) t @ ex, u - 1)"
    by (simp add: loop_body_def str_rfind_nonneg slice_to_nonneg slice_from_nonneg)
  ultimately show ?thesis by simp
next
  case (Some i)
  from rindex_Some [OF Some]
  have i: "i < nat u" "i < length t" "t ! i = SPACE"
    and later: "\<forall>j. i < j \<and> j < nat u \<and> j < length t \<longrightarrow> t ! j \<noteq> SPACE"
    by auto
  from Some assms have "loop_body t ex u = (take i t, drop i t, u)"
    by (simp add: loop_body_def str_rfind_nonneg slice_to_nonneg slice_from_nonneg)
  with i later show ?thesis by blast
qed

lemma split_loop_total:
  assumes "0 \<le> ml" and "well_formed t" and "0 \<le> u \<or> t = []"
  shows "\<exists>s e. split_loop ml t ex u = Some (Inr (s, e)) \<and> well_formed s
           \<and> int (length (concat (map utf8_bytes s))) \<le> ml
           \<and> set e \<subseteq> set t \<union> set ex"
  using assms
proof (induction "length t + nat (u + 1)" arbitrary: t ex u rule: less_induct)
  case less
  let ?bs = "concat (map utf8_bytes t)"
  from less.prems have enc: "str_encode t = Inr ?bs"
    by (simp add: str_encode_well_formed)
  show ?case
  proof (cases "int (length ?bs) > ml")
    case False
    with enc less.prems show ?thesis
      by (subst split_loop.simps) simp
  next
    case True
    with less.prems have "t \<noteq> []" by auto
    with less.prems have u: "0 \<le> u" by simp
    from loop_body_nonneg [OF u, of t ex]
    consider (hard) "SPACE \<notin> set (take (nat u) t)"
        "loop_body t ex u = (take (nat u) t, drop (nat u) t @ ex, u - 1)"
      | (space) i where "i < nat u" "i < length t" "t ! i = SPACE"
        "\<forall>j. i < j \<and> j < nat u \<and> j < length t \<longrightarrow> t ! j \<noteq> SPACE"
        "loop_body t ex u = (take i t, drop i t, u)"
      by blast
    then show ?thesis
    proof cases
      case hard
      have wf: "well_formed (take (nat u) t)"
        using less.prems by (simp add: well_formed_take)
      have inv: "0 \<le> u - 1 \<or> take (nat u) t = []"
        using u by (cases "u = 0") auto
      have dec: "length (take (nat u) t) + nat (u - 1 + 1) < length t + nat (u + 1)"
        using u by simp
      from less.hyps [OF dec less.prems(1) wf inv, of "drop (nat u) t @ ex"]
      obtain s e where r: "split_loop ml (take (nat u) t) (drop (nat u) t @ ex) (u - 1) = Some (Inr (s, e))"
        "well_formed s" "int (length (concat (map utf8_bytes s))) \<le> ml"
        "set e \<subseteq> set (take (nat u) t) \<union> set (drop (nat u) t @ ex)"
        by blast
      have "split_loop ml t ex u = Some (Inr (s, e))"
        using enc True hard(2) r(1) by (subst split_loop.simps) simp
      moreover have "set e \<subseteq> set t \<union> set ex"
        using r(4) by (auto dest: in_set_takeD in_set_dropD)
      ultimately show ?thesis using r(2,3) by blast
    next
      case (space i)
      have wf: "well_formed (take i t)"
        using less.prems by (simp add: well_formed_take)
      have dec: "length (take i t) + nat (u + 1) < length t + nat (u + 1)"
        using space(2) by simp
      from less.hyps [OF dec less.prems(1) wf, of "drop i t"] u
      obtain s e where r: "split_loop ml (take i t) (drop i t) u = Some (Inr (s, e))"
        "well_formed s" "int (length (concat (map utf8_bytes s))) \<le> ml"
        "set e \<subseteq> set (take i t) \<union> set (drop i t)"
        by blast
      have "split_loop ml t ex u = Some (Inr (s, e))"
        using enc True space(5) r(1) by (subst split_loop.simps) simp
      moreover have "set e \<subseteq> set t \<union> set ex"
        using r(4) by (auto dest: in_set_takeD in_set_dropD)
      ultimately show ?thesis using r(2,3) by blast
    qed
  qed
qed

subsection \<open>The loop returns, within the budget\<close>

lemmas segmenter_eval =
  get_sendable_message_def split_loop.simps loop_body_def str_rfind_def slice_index_def
  slice_to_def slice_from_def SPACE_def encodable_def utf8_bytes_def str_lstrip_def isspace_def

lemma get_sendable_message_total:
  assumes "well_formed t" and "0 \<le> max_length"
  shows "\<exists>s e. get_sendable_message t max_length = Some (Inr (s, e))
           \<and> str_encode s = Inr (concat (map utf8_bytes s))
           \<and> int (length (concat (map utf8_bytes s))) \<le> max_length
           \<and> well_formed e"
proof -
  from split_loop_total [OF assms(2) assms(1), of max_length "[]"] assms(2)
  obtain s e where r: "split_loop max_length t [] max_length = Some (Inr (s, e))"
    "well_formed s" "int (length (concat (map utf8_bytes s))) \<le> max_length"
    "set e \<subseteq> set t \<union> set []"
    by blast
  from r(4) assms(1) have "well_formed e"
    unfolding well_formed_def list_all_iff by auto
  then have "well_formed (str_lstrip e)"
    unfolding well_formed_def list_all_iff str_lstrip_def by (auto dest: set_dropWhileD)
  moreover have "get_sendable_message t max_length = Some (Inr (s, str_lstrip e))"
    using r(1) by (simp add: get_sendable_message_def)
  ultimately show ?thesis
    using r(2,3) by (auto simp: str_encode_well_formed)
qed

subsection \<open>One code point that does not fit\<close>

lemma split_loop_single:
  assumes "encodable c" and "0 \<le> max_length" and "max_length < int (length (utf8_bytes c))"
    and "0 \<le> u" and "u \<le> max_length"
  shows "split_loop max_length [c] [] u = Some (Inr ([], [c]))"
  using assms(4,5)
proof (induction "nat u" arbitrary: u)
  case 0
  then have u: "u = 0" by simp
  have "SPACE \<notin> set (take (nat u) [c])" using u by simp
  with loop_body_nonneg [of u "[c]" "[]"] u
  have body: "loop_body [c] [] u = ([], [c], - 1)"
    by auto
  have "split_loop max_length [] [c] (- 1) = Some (Inr ([], [c]))"
    using assms(2) by (subst split_loop.simps) simp
  with body assms(1,3) show ?case
    by (subst split_loop.simps) simp
next
  case (Suc n)
  then have u: "1 \<le> u" by simp
  have nospace: "c \<noteq> SPACE"
  proof
    assume "c = SPACE"
    then have "length (utf8_bytes c) = 1" by (simp add: SPACE_def utf8_bytes_def)
    with assms(3) Suc.prems u show False by simp
  qed
  from u have tk: "take (nat u) [c] = [c]" "drop (nat u) [c] = []"
    by (cases "nat u"; simp)+
  from nospace tk have "SPACE \<notin> set (take (nat u) [c])" by simp
  with loop_body_nonneg [of u "[c]" "[]"] u tk
  have body: "loop_body [c] [] u = ([c], [], u - 1)"
    by auto
  from Suc.hyps(2) have n: "n = nat (u - 1)" by simp
  from Suc.hyps(1) [OF n] u Suc.prems
  have "split_loop max_length [c] [] (u - 1) = Some (Inr ([], [c]))" by simp
  with body assms(1,3) show ?case
    by (subst split_loop.simps) simp
qed

section \<open>Properties of \<open>dict\<close> and of the memories\<close>

lemmas memory_eval =
  SopelMemory_init_def SopelMemory_setitem_def SopelMemory_contains_def
  SopelMemory_getitem_def SopelIdentifierMemory_init_def SopelIdentifierMemory_getitem_def
  SopelIdentifierMemory_contains_def SopelIdentifierMemory_setitem_def
  dict_setitem_def dict_getitem_def dict_contains_def Lock_new_def Lock_acquire_def
  Lock_release_def str_of_def lower_def

lemma map_of_dict_insert_same: "map_of (dict_insert k v d) k = Some v"
  by (induction d) auto

lemma map_of_dict_insert_other: "k' \<noteq> k \<Longrightarrow> map_of (dict_insert k v d) k' = map_of d k'"
  by (induction d) auto

lemma keys_dict_insert:
  "map fst (dict_insert k v d) = (if k \<in> fst ` set d then map fst d else map fst d @ [k])"
  by (induction d) auto

lemma distinct_dict_insert:
  "distinct (map fst d) \<Longrightarrow> distinct (map fst (dict_insert k v d))"
  by (simp add: keys_dict_insert)

lemma distinct_dict_update:
  "distinct (map fst d) \<Longrightarrow> dict_update d kvs = Inr d' \<Longrightarrow> distinct (map fst d')"
proof (induction d kvs rule: dict_update.induct)
  case (1 d)
  then show ?case by simp
next
  case (2 d k v kvs)
  then show ?case
    by (auto simp: dict_setitem_def distinct_dict_insert split: if_splits)
qed

lemma distinct_dict_init: "dict_init args = Inr d \<Longrightarrow> distinct (map fst d)"
proof (cases args rule: dict_init.cases)
  case 1
  then show "dict_init args = Inr d \<Longrightarrow> distinct (map fst d)" by auto
next
  case (2 kvs)
  then show "dict_init args = Inr d \<Longrightarrow> distinct (map fst d)"
    using distinct_dict_update [of "[]" kvs d] by simp
next
  case (3 v vb vc)
  then show "dict_init args = Inr d \<Longrightarrow> distinct (map fst d)" by simp
qed

lemma distinct_SopelMemory_init:
  "SopelMemory_init i args = Inr m \<Longrightarrow> distinct (map fst (entries m))"
  by (auto simp: SopelMemory_init_def split: sum.splits dest: distinct_dict_init)

lemma distinct_SopelMemory_setitem:
  "distinct (map fst (entries m)) \<Longrightarrow> SopelMemory_setitem m k v = Some (m', r)
     \<Longrightarrow> distinct (map fst (entries m'))"
  by (auto simp: SopelMemory_setitem_def dict_setitem_def distinct_dict_insert
      split: option.splits sum.splits if_splits)

lemma dict_eq_iff:
  assumes "distinct (map fst a)" and "distinct (map fst b)"
  shows "dict_eq a b \<longleftrightarrow> set a = set b"
proof
  assume eq: "dict_eq a b"
  then have len: "length a = length b"
    and all: "\<forall>p \<in> set a. map_of b (fst p) = Some (snd p)"
    by (simp_all add: dict_eq_def list_all_iff)
  have sub: "set a \<subseteq> set b"
  proof
    fix p assume "p \<in> set a"
    with all have "map_of b (fst p) = Some (snd p)" by blast
    then have "(fst p, snd p) \<in> set b" by (rule map_of_SomeD)
    then show "p \<in> set b" by simp
  qed
  from assms have "distinct a" "distinct b" by (simp_all add: distinct_map)
  then have "card (set a) = length a" "card (set b) = length b"
    by (simp_all add: distinct_card)
  with len have "card (set a) = card (set b)" by simp
  with sub show "set a = set b"
    by (simp add: card_subset_eq)
next
  assume eq: "set a = set b"
  from assms have "distinct a" "distinct b" by (simp_all add: distinct_map)
  then have "card (set a) = length a" "card (set b) = length b"
    by (simp_all add: distinct_card)
  with eq have len: "length a = length b" by simp
  have "\<forall>p \<in> set a. map_of b (fst p) = Some (snd p)"
  proof
    fix p assume "p \<in> set a"
    with eq have "(fst p, snd p) \<in> set b" by simp
    with assms(2) show "map_of b (fst p) = Some (snd p)" by simp
  qed
  with len show "dict_eq a b" by (simp add: dict_eq_def list_all_iff)
qed

text \<open>
  What \<open>__setitem__\<close> does when the insert raises, for any object whose lock is free
  and any unhashable key: the exception comes out with the lock held, and the next
  \<open>__setitem__\<close> or \<open>__contains__\<close> waits for it.
\<close>

lemma setitem_raise_holds_lock:
  assumes "\<not> locked (lock m)" and "\<not> hashable key"
  shows "SopelMemory_setitem m key value
           = Some (m\<lparr>lock := (lock m)\<lparr>locked := True\<rparr>\<rparr>, Inl TypeError)"
    and "SopelMemory_setitem (m\<lparr>lock := (lock m)\<lparr>locked := True\<rparr>\<rparr>) key' value' = None"
    and "SopelMemory_contains (m\<lparr>lock := (lock m)\<lparr>locked := True\<rparr>\<rparr>) key' = None"
  using assms by (simp_all add: memory_eval)

text \<open>
  A key that the factory refuses: \<open>__getitem__\<close>, \<open>__setitem__\<close> and \<open>__contains__\<close>
  raise the factory's exception, leaving the object as it was.
\<close>

lemma rejected_key_propagates:
  assumes "make_identifier m key = Inl e"
  shows "SopelIdentifierMemory_getitem m key = Some (m, Inl e)"
    and "SopelIdentifierMemory_setitem m key value = Some (m, Inl e)"
    and "SopelIdentifierMemory_contains m key = Some (m, Inl e)"
  using assms by (simp_all add: memory_eval)

section \<open>Claims on \<open>get_sendable_message\<close>\<close>

text \<open>
  C2. The claim: the split loses no content, since each cut at a space puts the tail in
  front of the excess of the earlier iterations. The code does so on the hard cut only
  (\<open>excess = text[unicode_max_length:] + excess\<close>); on the cut at a space it assigns
  \<open>excess = text[last_space:]\<close> and the earlier excess is gone. On the five code points
  \<open>e-acute, space, e-grave, space, a-grave\<close> with a budget of 4 bytes the loop cuts at a
  space twice, and the last word is in neither part of the result.
\<close>

theorem whitespace_cut_drops_earlier_excess:
  "get_sendable_message [0xE9, 0x20, 0xE8, 0x20, 0xE0] 4 = Some (Inr ([0xE9], [0xE8]))"
  by (simp add: segmenter_eval)

text \<open>
  C4, as stated: an iteration cuts at the last whitespace code point before the working
  offset whenever one is there. The code searches for U+0020 only: with a tab in the
  searched range and no space, the iteration makes the hard cut.
\<close>

theorem tab_is_not_a_cut_point:
  "isspace 0x09 \<and> [0x61, 0x62, 0x09, 0x63, 0x64] ! 2 = (0x09 :: nat)
   \<and> str_encode [0x61, 0x62, 0x09, 0x63, 0x64] = Inr [0x61, 0x62, 0x09, 0x63, 0x64]
   \<and> loop_body [0x61, 0x62, 0x09, 0x63, 0x64] [] 4 = ([0x61, 0x62, 0x09, 0x63], [0x64], 3)
   \<and> get_sendable_message [0x61, 0x62, 0x09, 0x63, 0x64] 4
       = Some (Inr ([0x61, 0x62, 0x09, 0x63], [0x64]))"
  by (simp add: segmenter_eval)

text \<open>
  C4, amended: with a working offset \<open>u \<ge> 0\<close>, an iteration cuts at the last SPACE
  (U+0020) strictly before the offset whenever a SPACE occurs there, leaving the offset
  as it is; it makes the hard cut at the offset, and decrements the offset, exactly when
  no SPACE occurs there. Whenever the encoded text is longer than the budget the loop
  runs this iteration.
\<close>

theorem loop_body_cuts_at_last_space:
  assumes "0 \<le> u"
  shows "(SPACE \<in> set (take (nat u) t) \<longrightarrow>
            (\<exists>i. i < nat u \<and> i < length t \<and> t ! i = SPACE
               \<and> (\<forall>j. i < j \<and> j < nat u \<and> j < length t \<longrightarrow> t ! j \<noteq> SPACE)
               \<and> fst (loop_body t ex u) = take i t
               \<and> snd (snd (loop_body t ex u)) = u))
         \<and> (SPACE \<notin> set (take (nat u) t) \<longrightarrow>
               loop_body t ex u = (take (nat u) t, drop (nat u) t @ ex, u - 1))
         \<and> (\<forall>max_length bs. str_encode t = Inr bs \<and> max_length < int (length bs) \<longrightarrow>
               split_loop max_length t ex u =
                 (case loop_body t ex u of (t', e', u') \<Rightarrow> split_loop max_length t' e' u'))"
proof (intro conjI allI impI)
  assume "SPACE \<in> set (take (nat u) t)"
  with loop_body_nonneg [OF assms, of t ex]
  obtain i where "i < nat u" "i < length t" "t ! i = SPACE"
    "\<forall>j. i < j \<and> j < nat u \<and> j < length t \<longrightarrow> t ! j \<noteq> SPACE"
    "loop_body t ex u = (take i t, drop i t, u)"
    by blast
  then show "\<exists>i. i < nat u \<and> i < length t \<and> t ! i = SPACE
               \<and> (\<forall>j. i < j \<and> j < nat u \<and> j < length t \<longrightarrow> t ! j \<noteq> SPACE)
               \<and> fst (loop_body t ex u) = take i t
               \<and> snd (snd (loop_body t ex u)) = u"
    by auto
next
  assume none: "SPACE \<notin> set (take (nat u) t)"
  have "\<not> (\<exists>i. i < nat u \<and> i < length t \<and> t ! i = SPACE)"
  proof
    assume "\<exists>i. i < nat u \<and> i < length t \<and> t ! i = SPACE"
    then obtain i where i: "i < nat u" "i < length t" "t ! i = SPACE" by blast
    then have "take (nat u) t ! i = SPACE" "i < length (take (nat u) t)" by simp_all
    then have "SPACE \<in> set (take (nat u) t)" by (metis nth_mem)
    with none show False by simp
  qed
  with loop_body_nonneg [OF assms, of t ex]
  show "loop_body t ex u = (take (nat u) t, drop (nat u) t @ ex, u - 1)"
    by blast
next
  fix max_length :: int and bs
  assume "str_encode t = Inr bs \<and> max_length < int (length bs)"
  then show "split_loop max_length t ex u =
               (case loop_body t ex u of (t', e', u') \<Rightarrow> split_loop max_length t' e' u')"
    by (subst split_loop.simps) simp
qed

theorem loop_body_cuts_at_last_space_witness:
  "(0::int) \<le> 10 \<and> SPACE \<in> set (take (nat 10) (str_of ''The quick brown fox''))
   \<and> (\<exists>i. i < nat 10 \<and> str_of ''The quick brown fox'' ! i = SPACE
         \<and> fst (loop_body (str_of ''The quick brown fox'') [] 10)
             = take i (str_of ''The quick brown fox'')
         \<and> snd (snd (loop_body (str_of ''The quick brown fox'') [] 10)) = 10)"
proof -
  have u: "(0::int) \<le> 10" by simp
  have sp: "SPACE \<in> set (take (nat 10) (str_of ''The quick brown fox''))"
    by (simp add: SPACE_def str_of_def)
  from loop_body_cuts_at_last_space [OF u, of "str_of ''The quick brown fox''" "[]"] sp u
  show ?thesis by blast
qed

text \<open>
  C5. With a budget of at least 4 bytes: for a well-formed text the function returns,
  the encoding of the sendable part is no longer than the budget, and the excess is
  again a well-formed text, whose own split is within the budget too; for a text that
  cannot be encoded the function raises \<open>UnicodeEncodeError\<close> and returns no part.
\<close>

theorem sendable_within_byte_budget:
  assumes "4 \<le> max_length"
  shows "(well_formed t \<longrightarrow>
            (\<exists>s e bs. get_sendable_message t max_length = Some (Inr (s, e))
               \<and> str_encode s = Inr bs \<and> int (length bs) \<le> max_length
               \<and> well_formed e
               \<and> (\<exists>s' e' bs'. get_sendable_message e max_length = Some (Inr (s', e'))
                     \<and> str_encode s' = Inr bs' \<and> int (length bs') \<le> max_length)))
         \<and> (\<not> well_formed t \<longrightarrow>
               get_sendable_message t max_length = Some (Inl UnicodeEncodeError))"
proof (intro conjI impI)
  assume wf: "well_formed t"
  from assms have ml: "0 \<le> max_length" by simp
  from get_sendable_message_total [OF wf ml]
  obtain s e where r: "get_sendable_message t max_length = Some (Inr (s, e))"
    "str_encode s = Inr (concat (map utf8_bytes s))"
    "int (length (concat (map utf8_bytes s))) \<le> max_length" "well_formed e"
    by blast
  from get_sendable_message_total [OF r(4) ml]
  obtain s' e' where r': "get_sendable_message e max_length = Some (Inr (s', e'))"
    "str_encode s' = Inr (concat (map utf8_bytes s'))"
    "int (length (concat (map utf8_bytes s'))) \<le> max_length"
    by blast
  from r r' show "\<exists>s e bs. get_sendable_message t max_length = Some (Inr (s, e))
               \<and> str_encode s = Inr bs \<and> int (length bs) \<le> max_length
               \<and> well_formed e
               \<and> (\<exists>s' e' bs'. get_sendable_message e max_length = Some (Inr (s', e'))
                     \<and> str_encode s' = Inr bs' \<and> int (length bs') \<le> max_length)"
    by blast
next
  assume "\<not> well_formed t"
  then have "str_encode t = Inl UnicodeEncodeError" by (rule str_encode_ill_formed)
  then have "split_loop max_length t [] max_length = Some (Inl UnicodeEncodeError)"
    by (subst split_loop.simps) simp
  then show "get_sendable_message t max_length = Some (Inl UnicodeEncodeError)"
    by (simp add: get_sendable_message_def)
qed

theorem sendable_within_byte_budget_witness:
  "(4::int) \<le> 4 \<and> well_formed [0xE9, 0x20, 0xE8, 0x20, 0xE0] \<and>
   (\<exists>s e bs. get_sendable_message [0xE9, 0x20, 0xE8, 0x20, 0xE0] 4 = Some (Inr (s, e))
      \<and> str_encode s = Inr bs \<and> int (length bs) \<le> 4 \<and> well_formed e)
   \<and> \<not> well_formed [0xD800]
   \<and> get_sendable_message [0xD800] 4 = Some (Inl UnicodeEncodeError)"
proof -
  have ml: "(4::int) \<le> 4" by simp
  have wf: "well_formed [0xE9, 0x20, 0xE8, 0x20, 0xE0]"
    by (simp add: well_formed_def encodable_def)
  have nwf: "\<not> well_formed [0xD800]"
    by (simp add: well_formed_def encodable_def)
  from sendable_within_byte_budget [OF ml, of "[0xE9, 0x20, 0xE8, 0x20, 0xE0]"] wf
  have a: "\<exists>s e bs. get_sendable_message [0xE9, 0x20, 0xE8, 0x20, 0xE0] 4 = Some (Inr (s, e))
      \<and> str_encode s = Inr bs \<and> int (length bs) \<le> 4 \<and> well_formed e"
    by blast
  from sendable_within_byte_budget [OF ml, of "[0xD800]"] nwf
  have b: "get_sendable_message [0xD800] 4 = Some (Inl UnicodeEncodeError)"
    by blast
  from a b wf nwf show ?thesis by simp
qed

text \<open>
  C6. For a well-formed text and a budget that is not negative, the function returns a
  pair. A hard cut decrements the working offset, a cut at a space makes the text
  strictly shorter, and the loop ends as soon as the encoded text is within the budget.
\<close>

theorem get_sendable_message_terminates:
  assumes "well_formed t" and "0 \<le> max_length"
  shows "(\<exists>s e. get_sendable_message t max_length = Some (Inr (s, e)))
         \<and> (\<forall>t' ex u. str_rfind t' SPACE 0 u = - 1 \<longrightarrow>
               snd (snd (loop_body t' ex u)) < u)
         \<and> (\<forall>t' ex u. str_rfind t' SPACE 0 u \<noteq> - 1 \<longrightarrow>
               length (fst (loop_body t' ex u)) < length t')
         \<and> (\<forall>t' ex u bs. str_encode t' = Inr bs \<and> int (length bs) \<le> max_length \<longrightarrow>
               split_loop max_length t' ex u = Some (Inr (t', ex)))"
proof (intro conjI allI impI)
  from get_sendable_message_total [OF assms]
  show "\<exists>s e. get_sendable_message t max_length = Some (Inr (s, e))" by blast
next
  fix t' :: str and ex :: str and u :: int
  assume "str_rfind t' SPACE 0 u = - 1"
  then show "snd (snd (loop_body t' ex u)) < u"
    by (simp add: loop_body_def)
next
  fix t' :: str and ex :: str and u :: int
  assume found: "str_rfind t' SPACE 0 u \<noteq> - 1"
  then obtain i where i: "rindex SPACE (drop 0 (take (slice_index u (length t')) t')) = Some i"
    and eq: "str_rfind t' SPACE 0 u = int i"
    by (auto simp: str_rfind_def slice_index_def Let_def split: option.splits)
  from rindex_Some [OF i] have "i < length t'" by simp
  with eq found show "length (fst (loop_body t' ex u)) < length t'"
    by (simp add: loop_body_def slice_to_def slice_index_def)
next
  fix t' :: str and ex :: str and u :: int and bs
  assume "str_encode t' = Inr bs \<and> int (length bs) \<le> max_length"
  then show "split_loop max_length t' ex u = Some (Inr (t', ex))"
    by (subst split_loop.simps) simp
qed

theorem get_sendable_message_terminates_witness:
  "well_formed [0xE9] \<and> (0::int) \<le> 1
   \<and> (\<exists>s e. get_sendable_message [0xE9] 1 = Some (Inr (s, e)))
   \<and> str_rfind [0xE9] SPACE 0 1 = - 1
   \<and> snd (snd (loop_body [0xE9] [] 1)) < 1"
proof -
  have wf: "well_formed [0xE9]"
    by (simp add: well_formed_def encodable_def)
  have ml: "(0::int) \<le> 1" by simp
  have nf: "str_rfind [0xE9] SPACE 0 1 = - 1"
    by (simp add: str_rfind_def slice_index_def SPACE_def)
  from get_sendable_message_terminates [OF wf ml]
  have ret: "\<exists>s e. get_sendable_message [0xE9] 1 = Some (Inr (s, e))"
    and dec: "\<forall>t' ex u. str_rfind t' SPACE 0 u = - 1 \<longrightarrow>
                snd (snd (loop_body t' ex u)) < u"
    by blast+
  from dec nf have "snd (snd (loop_body [0xE9] [] 1)) < 1" by blast
  with ret wf nf show ?thesis by simp
qed

text \<open>
  C10, as stated: a single code point whose encoding is longer than the budget comes
  back whole as the excess. The excess is left-stripped: a no-break space (two bytes)
  with a budget of 1 comes back as an empty excess.
\<close>

theorem nbsp_over_budget_leaves_no_excess:
  "encodable 0xA0 \<and> int (length (utf8_bytes 0xA0)) > 1
   \<and> get_sendable_message [0xA0] 1 = Some (Inr ([], []))
   \<and> get_sendable_message [0xA0] 1 \<noteq> Some (Inr ([], [0xA0]))"
  by (simp add: segmenter_eval)

text \<open>
  C10, amended: for a budget that is not negative and a single code point whose encoding
  is longer than the budget, the sendable part is empty, and the excess is the
  left-stripped code point: the code point itself unless it is whitespace, and then
  empty.
\<close>

theorem single_code_point_over_budget:
  assumes "encodable c" and "0 \<le> max_length"
    and "max_length < int (length (utf8_bytes c))"
  shows "get_sendable_message [c] max_length = Some (Inr ([], str_lstrip [c]))
         \<and> (\<not> isspace c \<longrightarrow> get_sendable_message [c] max_length = Some (Inr ([], [c])))
         \<and> (isspace c \<longrightarrow> get_sendable_message [c] max_length = Some (Inr ([], [])))"
proof -
  from split_loop_single [OF assms assms(2)]
  have "split_loop max_length [c] [] max_length = Some (Inr ([], [c]))" by simp
  then have "get_sendable_message [c] max_length = Some (Inr ([], str_lstrip [c]))"
    by (simp add: get_sendable_message_def)
  then show ?thesis by (simp add: str_lstrip_def)
qed

theorem single_code_point_over_budget_witness:
  "encodable 0xE9 \<and> (0::int) \<le> 1 \<and> 1 < int (length (utf8_bytes 0xE9)) \<and> \<not> isspace 0xE9
   \<and> get_sendable_message [0xE9] 1 = Some (Inr ([], [0xE9]))"
proof -
  have a: "encodable 0xE9" by (simp add: encodable_def)
  have b: "(0::int) \<le> 1" by simp
  have c: "1 < int (length (utf8_bytes 0xE9))" by (simp add: utf8_bytes_def)
  have d: "\<not> isspace 0xE9" by (simp add: isspace_def)
  from single_code_point_over_budget [OF a b c] a b c d show ?thesis by blast
qed

section \<open>Claims on \<open>SopelMemory\<close> and \<open>SopelIdentifierMemory\<close>\<close>

text \<open>
  C1. The claim: \<open>__setitem__\<close> releases the lock on every exit path, also when the
  insert raises. The code calls \<open>release\<close> after the insert with no \<open>try\<close> around
  it. On a new, empty memory, storing under a list (unhashable) raises \<open>TypeError\<close>
  with the lock held; the next \<open>__setitem__\<close> and \<open>__contains__\<close> never return.
\<close>

theorem setitem_exception_leaves_lock_held:
  "SopelMemory_init 0 [] = Inr \<lparr>entries = [], lock = \<lparr>lock_id = 0, locked = False\<rparr>\<rparr>
   \<and> SopelMemory_setitem \<lparr>entries = [], lock = \<lparr>lock_id = 0, locked = False\<rparr>\<rparr>
         (PyList []) (PyInt 1)
       = Some (\<lparr>entries = [], lock = \<lparr>lock_id = 0, locked = True\<rparr>\<rparr>, Inl TypeError)
   \<and> SopelMemory_setitem \<lparr>entries = [], lock = \<lparr>lock_id = 0, locked = True\<rparr>\<rparr>
         (PyStr (str_of ''a'')) (PyInt 1) = None
   \<and> SopelMemory_contains \<lparr>entries = [], lock = \<lparr>lock_id = 0, locked = True\<rparr>\<rparr>
         (PyStr (str_of ''a'')) = None"
  by (simp add: memory_eval)

text \<open>
  C3. The claim: every stored key is the factory's result, also for the items given to
  the constructor. The constructor hands its arguments to \<open>dict.__init__\<close>, which
  stores the keys as they are: built from \<open>{'Exirel': 'king'}\<close>, the memory holds the
  \<open>str\<close> key, not the identifier the factory makes of it, and reading \<open>'Exirel'\<close>
  back raises \<open>KeyError\<close>.
\<close>

theorem init_stores_raw_key:
  "SopelIdentifierMemory_init 0 [[(PyStr (str_of ''Exirel''), PyStr (str_of ''king''))]] Identifier
     = Inr \<lparr>entries = [(PyStr (str_of ''Exirel''), PyStr (str_of ''king''))],
            lock = \<lparr>lock_id = 0, locked = False\<rparr>, make_identifier = Identifier\<rparr>
   \<and> Identifier (PyStr (str_of ''Exirel'')) = Inr (PyIdentifier (str_of ''exirel''))
   \<and> SopelIdentifierMemory_getitem
        \<lparr>entries = [(PyStr (str_of ''Exirel''), PyStr (str_of ''king''))],
         lock = \<lparr>lock_id = 0, locked = False\<rparr>, make_identifier = Identifier\<rparr>
        (PyStr (str_of ''Exirel''))
     = Some (\<lparr>entries = [(PyStr (str_of ''Exirel''), PyStr (str_of ''king''))],
              lock = \<lparr>lock_id = 0, locked = False\<rparr>, make_identifier = Identifier\<rparr>,
             Inl KeyError)"
  by (simp add: memory_eval)

text \<open>
  C7. For keys \<open>a\<close> and \<open>b\<close> that the factory maps to the same hashable identifier, on
  a memory whose lock is free: \<open>__setitem__\<close> with \<open>a\<close> and \<open>v\<close> returns, and then
  \<open>__getitem__\<close> with \<open>b\<close> returns \<open>v\<close> and \<open>__contains__\<close> with \<open>b\<close> returns true.
\<close>

theorem set_then_get_normalized:
  assumes "make_identifier m a = make_identifier m b"
    and "make_identifier m a = Inr k"
    and "hashable k"
    and "\<not> locked (lock m)"
  shows "\<exists>m'. SopelIdentifierMemory_setitem m a v = Some (m', Inr PyNone)
           \<and> SopelIdentifierMemory_getitem m' b = Some (m', Inr v)
           \<and> SopelIdentifierMemory_contains m' b = Some (m', Inr True)"
proof -
  let ?m' = "m\<lparr>entries := dict_insert k v (entries m), lock := (lock m)\<lparr>locked := False\<rparr>\<rparr>"
  from assms have b: "make_identifier ?m' b = Inr k" by simp
  have nl: "(lock m)\<lparr>locked := False\<rparr> = lock m" using assms(4) by simp
  have set: "SopelIdentifierMemory_setitem m a v = Some (?m', Inr PyNone)"
    using assms(2,3,4) by (simp add: memory_eval)
  have get: "SopelIdentifierMemory_getitem ?m' b = Some (?m', Inr v)"
    using b assms(3) by (simp add: memory_eval map_of_dict_insert_same)
  have cont: "SopelIdentifierMemory_contains ?m' b = Some (?m', Inr True)"
    using b assms(3) by (simp add: memory_eval map_of_dict_insert_same)
  from set get cont show ?thesis by blast
qed

theorem set_then_get_normalized_witness:
  "Identifier (PyStr (str_of ''Exirel'')) = Identifier (PyStr (str_of ''exirel''))
   \<and> Identifier (PyStr (str_of ''Exirel'')) = Inr (PyIdentifier (str_of ''exirel''))
   \<and> hashable (PyIdentifier (str_of ''exirel''))
   \<and> (\<exists>m'. SopelIdentifierMemory_setitem
              \<lparr>entries = [], lock = Lock_new 0, make_identifier = Identifier\<rparr>
              (PyStr (str_of ''Exirel'')) (PyStr (str_of ''king'')) = Some (m', Inr PyNone)
         \<and> SopelIdentifierMemory_getitem m' (PyStr (str_of ''exirel''))
             = Some (m', Inr (PyStr (str_of ''king'')))
         \<and> SopelIdentifierMemory_contains m' (PyStr (str_of ''exirel'')) = Some (m', Inr True))"
proof -
  let ?m = "\<lparr>entries = [], lock = Lock_new 0, make_identifier = Identifier\<rparr>"
  have ab: "make_identifier ?m (PyStr (str_of ''Exirel''))
              = make_identifier ?m (PyStr (str_of ''exirel''))"
    by (simp add: str_of_def lower_def)
  have k: "make_identifier ?m (PyStr (str_of ''Exirel'')) = Inr (PyIdentifier (str_of ''exirel''))"
    by (simp add: str_of_def lower_def)
  have h: "hashable (PyIdentifier (str_of ''exirel''))" by simp
  have l: "\<not> locked (lock ?m)" by (simp add: Lock_new_def)
  from set_then_get_normalized [OF ab k h l, of "PyStr (str_of ''king'')"] ab k h
  show ?thesis by simp
qed

text \<open>
  C8. The claim: a key that the factory refuses makes the constructor fail, as it makes
  \<open>__getitem__\<close>, \<open>__setitem__\<close> and \<open>__contains__\<close> fail. The constructor never
  calls the factory: built from \<open>{1: 'error'}\<close>, the memory holds the key \<open>1\<close>, while
  \<open>memory[1] = 'error'\<close> raises the factory's \<open>AttributeError\<close>.
\<close>

theorem init_accepts_rejected_key:
  "Identifier (PyInt 1) = Inl AttributeError
   \<and> SopelIdentifierMemory_init 0 [[(PyInt 1, PyStr (str_of ''error''))]] Identifier
     = Inr \<lparr>entries = [(PyInt 1, PyStr (str_of ''error''))],
            lock = \<lparr>lock_id = 0, locked = False\<rparr>, make_identifier = Identifier\<rparr>
   \<and> SopelIdentifierMemory_setitem
        \<lparr>entries = [], lock = \<lparr>lock_id = 0, locked = False\<rparr>, make_identifier = Identifier\<rparr>
        (PyInt 1) (PyStr (str_of ''error''))
     = Some (\<lparr>entries = [], lock = \<lparr>lock_id = 0, locked = False\<rparr>,
              make_identifier = Identifier\<rparr>, Inl AttributeError)"
  by (simp add: memory_eval)

text \<open>
  C9. For two memories (whose stored keys are distinct, as those of a \<open>dict\<close> are),
  \<open>__eq__\<close> holds exactly when they have the same items and \<open>__ne__\<close> exactly when
  they do not; replacing the lock of either changes neither the comparison nor the
  outcome of hashing.
\<close>

theorem equality_ignores_lock:
  assumes "distinct (map fst (entries m1))" and "distinct (map fst (entries m2))"
  shows "(SopelMemory_eq m1 m2 \<longleftrightarrow> set (entries m1) = set (entries m2))
         \<and> (SopelMemory_ne m1 m2 \<longleftrightarrow> set (entries m1) \<noteq> set (entries m2))
         \<and> SopelMemory_eq (m1\<lparr>lock := l1\<rparr>) (m2\<lparr>lock := l2\<rparr>) = SopelMemory_eq m1 m2
         \<and> SopelMemory_ne (m1\<lparr>lock := l1\<rparr>) (m2\<lparr>lock := l2\<rparr>) = SopelMemory_ne m1 m2
         \<and> SopelMemory_hash (m1\<lparr>lock := l1\<rparr>) = SopelMemory_hash m1"
  using dict_eq_iff [OF assms]
  by (simp add: SopelMemory_eq_def SopelMemory_ne_def SopelMemory_hash_def)

theorem equality_ignores_lock_witness:
  "SopelMemory_init 1 [[(PyStr (str_of ''a''), PyInt 1), (PyStr (str_of ''b''), PyInt 2)]]
     = Inr \<lparr>entries = [(PyStr (str_of ''a''), PyInt 1), (PyStr (str_of ''b''), PyInt 2)],
            lock = Lock_new 1\<rparr>
   \<and> SopelMemory_init 2 [[(PyStr (str_of ''b''), PyInt 2), (PyStr (str_of ''a''), PyInt 1)]]
     = Inr \<lparr>entries = [(PyStr (str_of ''b''), PyInt 2), (PyStr (str_of ''a''), PyInt 1)],
            lock = Lock_new 2\<rparr>
   \<and> SopelMemory_eq
        \<lparr>entries = [(PyStr (str_of ''a''), PyInt 1), (PyStr (str_of ''b''), PyInt 2)],
         lock = Lock_new 1\<rparr>
        \<lparr>entries = [(PyStr (str_of ''b''), PyInt 2), (PyStr (str_of ''a''), PyInt 1)],
         lock = Lock_new 2\<rparr>"
proof -
  let ?m1 = "\<lparr>entries = [(PyStr (str_of ''a''), PyInt 1), (PyStr (str_of ''b''), PyInt 2)],
              lock = Lock_new 1\<rparr>"
  let ?m2 = "\<lparr>entries = [(PyStr (str_of ''b''), PyInt 2), (PyStr (str_of ''a''), PyInt 1)],
              lock = Lock_new 2\<rparr>"
  have d1: "distinct (map fst (entries ?m1))" by (simp add: str_of_def)
  have d2: "distinct (map fst (entries ?m2))" by (simp add: str_of_def)
  have same: "set (entries ?m1) = set (entries ?m2)" by auto
  have i1: "SopelMemory_init 1 [[(PyStr (str_of ''a''), PyInt 1), (PyStr (str_of ''b''), PyInt 2)]]
     = Inr ?m1"
    by (simp add: memory_eval)
  have i2: "SopelMemory_init 2 [[(PyStr (str_of ''b''), PyInt 2), (PyStr (str_of ''a''), PyInt 1)]]
     = Inr ?m2"
    by (simp add: memory_eval)
  from equality_ignores_lock [OF d1 d2] same have "SopelMemory_eq ?m1 ?m2" by blast
  with i1 i2 show ?thesis by blast
qed

end
